theory Spec2Isabelle
  imports Main "HOL-Library.Multiset"
begin

unbundle bit_operations_syntax

section \<open>The Fock-space basis engine of \<open>cmpy/core/basis.py\<close>\<close>

text \<open>
  Python integers are unbounded, so a state is an \<open>int\<close>; \<open>&\<close>, \<open>^\<close> and \<open><<\<close> on
  Python integers are the two's-complement operations \<open>AND\<close>, \<open>XOR\<close> and \<open>push_bit\<close>
  of HOL. An argument that may be Python's \<open>None\<close> is an \<open>option\<close>, and every
  exception the modelled code can raise is a value of \<open>py_error\<close>.
\<close>

datatype py_error = ValueError | TypeError | IndexError | ZeroDivisionError

subsection \<open>Binary representation and occupation count\<close>

text \<open>
  \<open>bin(x)\<close>: an optional minus sign, the prefix \<open>0b\<close>, and the binary digits of
  \<open>|x|\<close>, most significant first, without leading zeros (\<open>bin(0) = '0b0'\<close>).
\<close>

definition bit_char :: "nat \<Rightarrow> char" where
  "bit_char b = (if b = 0 then CHR ''0'' else CHR ''1'')"

fun bin_digits :: "nat \<Rightarrow> string" where
  "bin_digits m = (if m < 2 then [bit_char m] else bin_digits (m div 2) @ [bit_char (m mod 2)])"

definition bin :: "int \<Rightarrow> string" where
  "bin x = (if x < 0 then ''-'' else []) @ ''0b'' @ bin_digits (nat \<bar>x\<bar>)"

text \<open>\<open>str.count\<close> with a one-character argument.\<close>

definition str_count :: "string \<Rightarrow> char \<Rightarrow> nat" where
  "str_count s c = length (filter (\<lambda>d. d = c) s)"

text \<open>The property \<open>SpinState.n\<close>: \<open>bin(self).count("1")\<close>.\<close>

definition SpinState_n :: "int \<Rightarrow> int" where
  "SpinState_n self = int (str_count (bin self) CHR ''1'')"

subsection \<open>Creation and annihilation\<close>

text \<open>
  \<open>1 << pos\<close> raises \<open>ValueError\<close> for a negative \<open>pos\<close>. The result of both
  functions is the new state or \<open>None\<close>.
\<close>

definition create :: "int \<Rightarrow> int \<Rightarrow> py_error + int option" where
  "create num pos =
     (if pos < 0 then Inl ValueError
      else let op = push_bit (nat pos) 1
           in if op AND num = 0 then Inr (Some (num XOR op)) else Inr None)"

definition annihilate :: "int \<Rightarrow> int \<Rightarrow> py_error + int option" where
  "annihilate num pos =
     (if pos < 0 then Inl ValueError
      else let op = push_bit (nat pos) 1
           in if op AND num \<noteq> 0 then Inr (Some (num XOR op)) else Inr None)"

text \<open>
  The constructor call \<open>SpinState(x)\<close> is \<open>int(x)\<close> with the subclass as type:
  it raises \<open>TypeError\<close> when \<open>x\<close> is \<open>None\<close>.
\<close>

definition SpinState_new :: "int option \<Rightarrow> py_error + int" where
  "SpinState_new x = (case x of None \<Rightarrow> Inl TypeError | Some v \<Rightarrow> Inr v)"

text \<open>The methods \<open>SpinState.create\<close> and \<open>SpinState.annihilate\<close>.\<close>

definition SpinState_create :: "int \<Rightarrow> int \<Rightarrow> py_error + int" where
  "SpinState_create self pos =
     (case create self pos of Inl e \<Rightarrow> Inl e | Inr r \<Rightarrow> SpinState_new r)"

definition SpinState_annihilate :: "int \<Rightarrow> int \<Rightarrow> py_error + int" where
  "SpinState_annihilate self pos =
     (case annihilate self pos of Inl e \<Rightarrow> Inl e | Inr r \<Rightarrow> SpinState_new r)"

subsection \<open>Enumeration of the spin states\<close>

text \<open>
  \<open>int(s, base=2)\<close> on the strings the code passes, which consist of the digit
  \<open>1\<close> only: a string of binary digits is read most significant digit first, and
  the empty string (like any string with another character) raises \<open>ValueError\<close>.
\<close>

fun base2_value :: "int \<Rightarrow> string \<Rightarrow> int option" where
  "base2_value acc [] = Some acc"
| "base2_value acc (c # cs) =
     (if c = CHR ''0'' then base2_value (2 * acc) cs
      else if c = CHR ''1'' then base2_value (2 * acc + 1) cs
      else None)"

definition int_base2 :: "string \<Rightarrow> py_error + int" where
  "int_base2 s =
     (if s = [] then Inl ValueError
      else case base2_value 0 s of None \<Rightarrow> Inl ValueError | Some v \<Rightarrow> Inr v)"

text \<open>
  \<open>create_spinstates\<close>: \<open>"1" * num_sites\<close> is the empty string for
  \<open>num_sites \<le> 0\<close>; \<open>range(max_int + 1)\<close> is \<open>[0..max_int]\<close>. The assignment to the
  global \<open>BITS\<close> only affects the rendering of labels, which is not modelled.
\<close>

definition create_spinstates :: "int \<Rightarrow> py_error + int list" where
  "create_spinstates num_sites =
     (case int_base2 (replicate (nat num_sites) CHR ''1'') of
        Inl e \<Rightarrow> Inl e
      | Inr max_int \<Rightarrow> Inr [0..max_int])"

subsection \<open>Composite states and basis sectors\<close>

record State =
  up :: int
  dn :: int

text \<open>
  A filling argument may be \<open>None\<close>. \<open>up_states\<close> and \<open>dn_states\<close> hold the lists
  handed to the constructor.
\<close>

record BasisSector =
  num_sites :: int
  n_up :: "int option"
  n_dn :: "int option"
  up_states :: "int list"
  dn_states :: "int list"

text \<open>
  The generator \<open>BasisSector.states\<close>, as the finite list of what it yields:
  \<open>itertools.product\<close> runs through its first argument in the outer loop.
\<close>

definition BasisSector_states :: "BasisSector \<Rightarrow> State list" where
  "BasisSector_states self =
     map (\<lambda>(u, d). \<lparr>up = u, dn = d\<rparr>) (List.product (up_states self) (dn_states self))"

definition BasisSector_size :: "BasisSector \<Rightarrow> int" where
  "BasisSector_size self = int (length (up_states self)) * int (length (dn_states self))"

definition BasisSector_filling :: "BasisSector \<Rightarrow> int option \<times> int option" where
  "BasisSector_filling self = (n_up self, n_dn self)"

definition BasisSector_get_state_index :: "BasisSector \<Rightarrow> int \<Rightarrow> int \<Rightarrow> int" where
  "BasisSector_get_state_index self idx_up idx_dn = idx_up * BasisSector_size self + idx_dn"

text \<open>
  Subscription of a Python list: an index below zero counts from the end, and an
  index outside the list raises \<open>IndexError\<close>.
\<close>

definition list_getitem :: "'a list \<Rightarrow> int \<Rightarrow> py_error + 'a" where
  "list_getitem xs i =
     (if - int (length xs) \<le> i \<and> i < 0 then Inr (xs ! nat (i + int (length xs)))
      else if 0 \<le> i \<and> i < int (length xs) then Inr (xs ! nat i)
      else Inl IndexError)"

text \<open>
  \<open>//\<close> and \<open>%\<close> round towards minus infinity, as \<open>div\<close> and \<open>mod\<close> on \<open>int\<close> do,
  and raise \<open>ZeroDivisionError\<close> for a zero divisor.
\<close>

definition BasisSector_get_spin_states :: "BasisSector \<Rightarrow> int \<Rightarrow> py_error + int \<times> int" where
  "BasisSector_get_spin_states self state_idx =
     (if BasisSector_size self = 0 then Inl ZeroDivisionError
      else let idx_up = state_idx div BasisSector_size self;
               idx_dn = state_idx mod BasisSector_size self
           in case list_getitem (up_states self) idx_up of
                Inl e \<Rightarrow> Inl e
              | Inr u \<Rightarrow> (case list_getitem (dn_states self) idx_dn of
                           Inl e \<Rightarrow> Inl e
                         | Inr d \<Rightarrow> Inr (u, d)))"

record SpinSector =
  ss_num_sites :: int
  ss_n :: "int option"
  ss_sigma :: int
  ss_spinstates :: "int list"

subsection \<open>The Fock basis\<close>

text \<open>
  A dictionary is an association list in insertion order with distinct keys.
  \<open>sectors[k].append(v)\<close> on a \<open>defaultdict(list)\<close> adds the key \<open>k\<close> with the
  list \<open>[v]\<close> at the end when \<open>k\<close> is new, and extends the list of \<open>k\<close> otherwise.
\<close>

fun defaultdict_append :: "('k \<times> 'v list) list \<Rightarrow> 'k \<Rightarrow> 'v \<Rightarrow> ('k \<times> 'v list) list" where
  "defaultdict_append [] k v = [(k, [v])]"
| "defaultdict_append ((k', vs) # d) k v =
     (if k' = k then (k', vs @ [v]) # d else (k', vs) # defaultdict_append d k v)"

text \<open>\<open>d.get(k, default)\<close>; on a \<open>defaultdict\<close> it does not insert the key.\<close>

definition dict_get :: "('k \<times> 'v) list \<Rightarrow> 'k \<Rightarrow> 'v \<Rightarrow> 'v" where
  "dict_get d k dflt = (case map_of d k of None \<Rightarrow> dflt | Some v \<Rightarrow> v)"

text \<open>
  The attribute \<open>_sectors\<close> is the class \<open>defaultdict\<close> itself after \<open>__init__\<close>
  and a dictionary after \<open>init_basis\<close>.
\<close>

datatype sectors_attr = Defaultdict_class | Sectors "(int \<times> int list) list"

record FockBasis =
  fb_num_sites :: int
  fb_size :: int
  fb_spinstates :: "int list"
  fb_sectors :: sectors_attr
  fb_fillings :: "int list"

definition group_by_filling :: "int list \<Rightarrow> (int \<times> int list) list" where
  "group_by_filling spinstates =
     foldl (\<lambda>sectors state. defaultdict_append sectors (SpinState_n state) state) [] spinstates"

definition FockBasis_init_basis :: "FockBasis \<Rightarrow> int \<Rightarrow> py_error + FockBasis" where
  "FockBasis_init_basis self n_sites =
     (case create_spinstates n_sites of
        Inl e \<Rightarrow> Inl e
      | Inr spinstates \<Rightarrow>
          let sectors = group_by_filling spinstates;
              num_spinstates = int (length spinstates)
          in Inr (self\<lparr>fb_num_sites := n_sites,
                       fb_size := num_spinstates * num_spinstates,
                       fb_spinstates := spinstates,
                       fb_sectors := Sectors sectors,
                       fb_fillings := map fst sectors\<rparr>))"

text \<open>The constructor \<open>FockBasis(num_sites)\<close>, with \<open>0\<close> as the default argument.\<close>

definition FockBasis_init :: "int \<Rightarrow> py_error + FockBasis" where
  "FockBasis_init n_sites =
     (let self = \<lparr>fb_num_sites = n_sites, fb_size = 0, fb_spinstates = [],
                  fb_sectors = Defaultdict_class, fb_fillings = []\<rparr>
      in if n_sites \<noteq> 0 then FockBasis_init_basis self n_sites else Inr self)"

text \<open>
  \<open>self._sectors.get(n, self._spinstates)\<close>: on the class \<open>defaultdict\<close> the call
  is that of the unbound method \<open>dict.get\<close> with \<open>n\<close> in the place of the
  dictionary, which raises \<open>TypeError\<close> for every integer or \<open>None\<close>. The keys of
  the dictionary are integers, so \<open>None\<close> is never found.
\<close>

definition FockBasis_get_spinstates :: "FockBasis \<Rightarrow> int option \<Rightarrow> py_error + int list" where
  "FockBasis_get_spinstates self n =
     (case fb_sectors self of
        Defaultdict_class \<Rightarrow> Inl TypeError
      | Sectors d \<Rightarrow>
          (case n of
             None \<Rightarrow> Inr (fb_spinstates self)
           | Some k \<Rightarrow> Inr (dict_get d k (fb_spinstates self))))"

definition FockBasis_get_spin_sector :: "FockBasis \<Rightarrow> int option \<Rightarrow> int \<Rightarrow> py_error + SpinSector" where
  "FockBasis_get_spin_sector self n sigma =
     (case FockBasis_get_spinstates self n of
        Inl e \<Rightarrow> Inl e
      | Inr sts \<Rightarrow>
          Inr \<lparr>ss_num_sites = fb_num_sites self, ss_n = n, ss_sigma = sigma, ss_spinstates = sts\<rparr>)"

definition FockBasis_get_sector ::
    "FockBasis \<Rightarrow> int option \<Rightarrow> int option \<Rightarrow> BasisSector option \<Rightarrow> py_error + BasisSector" where
  "FockBasis_get_sector self nu nd sector =
     (case (nu, nd, sector) of
        (None, None, Some sec) \<Rightarrow> Inr sec
      | _ \<Rightarrow>
          (case FockBasis_get_spinstates self nu of
             Inl e \<Rightarrow> Inl e
           | Inr ups \<Rightarrow>
               (case FockBasis_get_spinstates self nd of
                  Inl e \<Rightarrow> Inl e
                | Inr dns \<Rightarrow>
                    Inr \<lparr>num_sites = fb_num_sites self, n_up = nu, n_dn = nd,
                         up_states = ups, dn_states = dns\<rparr>)))"

text \<open>The spin tags \<open>UP, DN = +1, -1\<close>.\<close>

definition UP :: int where "UP = 1"
definition DN :: int where "DN = - 1"

text \<open>\<open>x in fillings\<close> for a list of integers; \<open>None\<close> is not a member.\<close>

definition in_fillings :: "int option \<Rightarrow> int list \<Rightarrow> bool" where
  "in_fillings x fs = (case x of None \<Rightarrow> False | Some k \<Rightarrow> k \<in> set fs)"

text \<open>\<open>x += delta\<close> raises \<open>TypeError\<close> when \<open>x\<close> is \<open>None\<close>.\<close>

definition iadd :: "int option \<Rightarrow> int \<Rightarrow> py_error + int option" where
  "iadd x delta = (case x of None \<Rightarrow> Inl TypeError | Some k \<Rightarrow> Inr (Some (k + delta)))"

definition FockBasis_get_next_sector ::
    "FockBasis \<Rightarrow> int option \<Rightarrow> int option \<Rightarrow> BasisSector option \<Rightarrow> int \<Rightarrow> int
      \<Rightarrow> py_error + BasisSector option" where
  "FockBasis_get_next_sector self nu nd sector sigma delta =
     (let (nu1, nd1) = (case sector of None \<Rightarrow> (nu, nd) | Some sec \<Rightarrow> BasisSector_filling sec);
          shifted = (if sigma = UP
                     then (case iadd nu1 delta of Inl e \<Rightarrow> Inl e | Inr u \<Rightarrow> Inr (u, nd1))
                     else (case iadd nd1 delta of Inl e \<Rightarrow> Inl e | Inr d \<Rightarrow> Inr (nu1, d)))
      in case shifted of
           Inl e \<Rightarrow> Inl e
         | Inr (nu2, nd2) \<Rightarrow>
             if \<not> in_fillings nu2 (fb_fillings self) \<or> \<not> in_fillings nd2 (fb_fillings self)
             then Inr None
             else (case FockBasis_get_sector self nu2 nd2 None of
                     Inl e \<Rightarrow> Inl e
                   | Inr sec \<Rightarrow> Inr (Some sec)))"

subsection \<open>Auxiliary notions for the proofs\<close>

text \<open>The number of digits \<open>1\<close> among the binary digits of a natural number.\<close>

definition ones :: "nat \<Rightarrow> nat" where
  "ones m = str_count (bin_digits m) CHR ''1''"

section \<open>Properties\<close>

subsection \<open>Occupation count and single bits\<close>

lemma str_count_append: "str_count (a @ b) c = str_count a c + str_count b c"
  by (simp add: str_count_def)

lemma str_count_bit_char: "b < 2 \<Longrightarrow> str_count [bit_char b] CHR ''1'' = b"
  by (auto simp: str_count_def bit_char_def)

lemma ones_rec: "ones m = (if m < 2 then m else ones (m div 2) + m mod 2)"
  unfolding ones_def
  by (subst bin_digits.simps) (simp add: str_count_append str_count_bit_char del: bin_digits.simps)

lemma ones_0: "ones 0 = 0"
  by (subst ones_rec) simp

lemma ones_double: "b < 2 \<Longrightarrow> ones (2 * k + b) = ones k + b"
proof (cases "k = 0")
  case True
  assume "b < 2"
  then show ?thesis using True by (subst ones_rec) (simp add: ones_0)
next
  case False
  assume "b < 2"
  then show ?thesis using False by (subst ones_rec) simp
qed

lemma SpinState_n_ones: "0 \<le> x \<Longrightarrow> SpinState_n x = int (ones (nat x))"
  by (simp add: SpinState_n_def bin_def ones_def str_count_def del: bin_digits.simps)

lemma ones_set_bit: "\<not> bit m i \<Longrightarrow> ones (set_bit i m) = Suc (ones m)"
proof (induction i arbitrary: m)
  case 0
  then have ev: "even m" by (simp add: bit_0)
  then obtain k where k: "m = 2 * k" by (auto elim: evenE)
  have "set_bit 0 m = 2 * k + 1" using k by (simp add: set_bit_0)
  then show ?case using k ones_double [of 1 k] ones_double [of 0 k] by simp
next
  case (Suc i)
  have nb: "\<not> bit (m div 2) i" using Suc.prems by (simp add: bit_Suc)
  have eq: "set_bit (Suc i) m = 2 * set_bit i (m div 2) + m mod 2"
    by (simp add: set_bit_Suc)
  have "ones (set_bit (Suc i) m) = ones (set_bit i (m div 2)) + m mod 2"
    unfolding eq by (rule ones_double) simp
  also have "\<dots> = Suc (ones (m div 2)) + m mod 2" using Suc.IH [OF nb] by simp
  finally have "ones (set_bit (Suc i) m) = Suc (ones (m div 2) + m mod 2)" by simp
  moreover have "ones (m div 2) + m mod 2 = ones (2 * (m div 2) + m mod 2)"
    by (rule ones_double [symmetric]) simp
  ultimately show ?case by simp
qed

lemma ones_unset_bit: "bit m i \<Longrightarrow> ones m = Suc (ones (unset_bit i m))"
proof -
  assume b: "bit m i"
  have "set_bit i (unset_bit i m) = m"
    using b by (intro bit_eqI) (auto simp add: bit_simps)
  moreover have "\<not> bit (unset_bit i m) i" by (simp add: bit_simps)
  ultimately show ?thesis using ones_set_bit [of "unset_bit i m" i] by simp
qed

lemma and_pow_zero_iff: "((2::int) ^ i AND s = 0) \<longleftrightarrow> \<not> bit s i"
  using bit_iff_and_push_bit_not_eq_0 [of s i] by (simp add: and.commute)

lemma xor_set: "\<not> bit (s::int) i \<Longrightarrow> s XOR 2 ^ i = set_bit i s"
  by (rule bit_eqI) (auto simp add: bit_simps)

lemma xor_unset: "bit (s::int) i \<Longrightarrow> s XOR 2 ^ i = unset_bit i s"
  by (rule bit_eqI) (auto simp add: bit_simps)

lemma nat_set_bit: "0 \<le> s \<Longrightarrow> nat (set_bit i s) = set_bit i (nat s)"
  by (rule bit_eqI) (auto simp add: bit_simps)

lemma nat_unset_bit: "0 \<le> s \<Longrightarrow> nat (unset_bit i s) = unset_bit i (nat s)"
  by (rule bit_eqI) (auto simp add: bit_simps)

lemma create_eq:
  "0 \<le> i \<Longrightarrow> create s i = Inr (if bit s (nat i) then None else Some (set_bit (nat i) s))"
  by (simp add: create_def Let_def and_pow_zero_iff xor_set)

lemma annihilate_eq:
  "0 \<le> i \<Longrightarrow> annihilate s i = Inr (if bit s (nat i) then Some (unset_bit (nat i) s) else None)"
  by (simp add: annihilate_def Let_def and_pow_zero_iff xor_unset)

lemma n_set_bit:
  "0 \<le> s \<Longrightarrow> \<not> bit s j \<Longrightarrow> SpinState_n (set_bit j s) = SpinState_n s + 1"
  by (simp add: SpinState_n_ones nat_set_bit ones_set_bit bit_nat_iff)

lemma n_unset_bit:
  "0 \<le> s \<Longrightarrow> bit s j \<Longrightarrow> SpinState_n (unset_bit j s) = SpinState_n s - 1"
  using ones_unset_bit [of "nat s" j]
  by (simp add: SpinState_n_ones nat_unset_bit bit_nat_iff)

subsection \<open>Creation and annihilation\<close>

text \<open>
  Claim C2. For a non-negative state \<open>s\<close> and a site index \<open>i\<close>, \<open>create(s, i)\<close>
  returns a state exactly when bit \<open>i\<close> of \<open>s\<close> is 0, and then the state is \<open>s\<close> with
  bit \<open>i\<close> set, whose occupation count is that of \<open>s\<close> plus one; it returns \<open>None\<close>
  exactly when bit \<open>i\<close> is 1. Symmetrically \<open>annihilate(s, i)\<close> returns \<open>s\<close> with bit
  \<open>i\<close> cleared exactly when bit \<open>i\<close> is 1, and \<open>None\<close> exactly when it is 0. Both are
  functions of their arguments, which they leave as they are.
\<close>

theorem create_annihilate_spec:
  "0 \<le> s \<Longrightarrow> 0 \<le> i \<Longrightarrow>
     ((\<exists>t. create s i = Inr (Some t)) \<longleftrightarrow> \<not> bit s (nat i)) \<and>
     (create s i = Inr None \<longleftrightarrow> bit s (nat i)) \<and>
     (\<not> bit s (nat i) \<longrightarrow>
        create s i = Inr (Some (set_bit (nat i) s)) \<and>
        SpinState_n (set_bit (nat i) s) = SpinState_n s + 1) \<and>
     ((\<exists>t. annihilate s i = Inr (Some t)) \<longleftrightarrow> bit s (nat i)) \<and>
     (annihilate s i = Inr None \<longleftrightarrow> \<not> bit s (nat i)) \<and>
     (bit s (nat i) \<longrightarrow> annihilate s i = Inr (Some (unset_bit (nat i) s)))"
  by (simp add: create_eq annihilate_eq n_set_bit)

text \<open>The statement at \<open>s = 5\<close> with the sites 1 (vacant) and 0 (occupied).\<close>

theorem create_annihilate_spec_witness:
  "(0::int) \<le> 5 \<and> (0::int) \<le> 1 \<and> \<not> bit (5::int) (nat 1) \<and> create 5 1 = Inr (Some 7)
    \<and> SpinState_n 7 = SpinState_n 5 + 1
    \<and> annihilate 5 1 = Inr None \<and> bit (5::int) (nat 0) \<and> create 5 0 = Inr None \<and> annihilate 5 0 = Inr (Some 4)"
  using create_annihilate_spec [of 5 1] create_annihilate_spec [of 5 0]
  by (simp add: bit_numeral_simps set_bit_eq_or unset_bit_eq_and_not)

text \<open>
  Claim C9. When \<open>create(s, i)\<close> returns a state, \<open>annihilate\<close> at the same site
  gives \<open>s\<close> back.
\<close>

theorem annihilate_create_roundtrip:
  "0 \<le> i \<Longrightarrow> create s i = Inr (Some t) \<Longrightarrow> annihilate t i = Inr (Some s)"
proof -
  assume i: "0 \<le> i" and c: "create s i = Inr (Some t)"
  from c i have nb: "\<not> bit s (nat i)" and t: "t = set_bit (nat i) s"
    by (auto simp add: create_eq split: if_splits)
  have "unset_bit (nat i) (set_bit (nat i) s) = s"
    using nb by (intro bit_eqI) (auto simp add: bit_simps)
  then show ?thesis using i t by (simp add: annihilate_eq bit_simps)
qed

theorem annihilate_create_roundtrip_witness:
  "(0::int) \<le> 1 \<and> create 5 1 = Inr (Some 7) \<and> annihilate 7 1 = Inr (Some 5)"
proof -
  have c: "create 5 1 = Inr (Some 7)" by (simp add: create_def)
  show ?thesis using c annihilate_create_roundtrip [of 1 5 7] by simp
qed

text \<open>
  Claim C5. On the occupied site 0 of the state 1 the function \<open>create\<close> returns
  \<open>None\<close>, and the method \<open>SpinState.create\<close>, which hands that result to the
  constructor of the class, raises \<open>TypeError\<close>; likewise \<open>annihilate\<close> and
  \<open>SpinState.annihilate\<close> on the vacant site 0 of the state 0.
\<close>

theorem SpinState_create_occupied_raises:
  "create 1 0 = Inr None \<and> SpinState_create 1 0 = Inl TypeError \<and>
   annihilate 0 0 = Inr None \<and> SpinState_annihilate 0 0 = Inl TypeError"
  by (simp add: create_def annihilate_def SpinState_create_def SpinState_annihilate_def SpinState_new_def)

subsection \<open>Enumeration\<close>

lemma base2_value_ones:
  "base2_value acc (replicate n CHR ''1'') = Some (acc * 2 ^ n + 2 ^ n - 1)"
  by (induction n arbitrary: acc) (simp_all add: algebra_simps)

lemma create_spinstates_pos:
  "1 \<le> N \<Longrightarrow> create_spinstates N = Inr [0..2 ^ nat N - 1]"
  by (simp add: create_spinstates_def int_base2_def base2_value_ones)

lemma create_spinstates_nonpos:
  "N \<le> 0 \<Longrightarrow> create_spinstates N = Inl ValueError"
  by (simp add: create_spinstates_def int_base2_def)

text \<open>
  Claim C3, amended. For every site count \<open>N \<ge> 1\<close> (so for every \<open>N\<close> in \<open>[1, 8]\<close>),
  \<open>create_spinstates(N)\<close> returns the list of the integers from 0 to \<open>2^N - 1\<close> in
  increasing order: \<open>2^N\<close> distinct states, each in \<open>[0, 2^N - 1]\<close>.
\<close>

theorem create_spinstates_enumerates:
  "1 \<le> N \<Longrightarrow>
     (\<exists>xs. create_spinstates N = Inr xs \<and> xs = [0..2 ^ nat N - 1] \<and>
        length xs = 2 ^ nat N \<and> distinct xs \<and>
        set xs = {s. 0 \<le> s \<and> s \<le> 2 ^ nat N - 1} \<and> sorted_wrt (<) xs)"
  by (auto simp add: create_spinstates_pos strict_sorted_iff)

theorem create_spinstates_enumerates_witness:
  "(1::int) \<le> 2 \<and> create_spinstates 2 = Inr [0, 1, 2, 3]"
  using create_spinstates_enumerates [of 2] by (simp add: upto.simps)

text \<open>
  Claim C3 as stated fails at \<open>N = 0\<close>: \<open>"1" * 0\<close> is the empty string, on which
  \<open>int(..., base=2)\<close> raises \<open>ValueError\<close>, so no list of \<open>2^0\<close> states is returned.
\<close>

theorem create_spinstates_zero_raises:
  "create_spinstates 0 = Inl ValueError \<and>
   \<not> (\<exists>xs. create_spinstates 0 = Inr xs \<and> length xs = 2 ^ 0)"
  by (simp add: create_spinstates_nonpos)

subsection \<open>Grouping by filling\<close>

lemma defaultdict_append_map_of:
  "map_of (defaultdict_append d k v) =
     (map_of d)(k \<mapsto> (case map_of d k of None \<Rightarrow> [v] | Some vs \<Rightarrow> vs @ [v]))"
  by (induction d k v rule: defaultdict_append.induct) (auto simp: fun_eq_iff)

lemma defaultdict_append_keys:
  "map fst (defaultdict_append d k v) =
     (if k \<in> set (map fst d) then map fst d else map fst d @ [k])"
  by (induction d k v rule: defaultdict_append.induct) auto

lemma defaultdict_append_mset:
  "mset (concat (map snd (defaultdict_append d k v))) = add_mset v (mset (concat (map snd d)))"
  by (induction d k v rule: defaultdict_append.induct) auto

lemma group_by_filling_snoc:
  "group_by_filling (xs @ [x]) = defaultdict_append (group_by_filling xs) (SpinState_n x) x"
  by (simp add: group_by_filling_def)

lemma group_by_filling_Nil: "group_by_filling [] = []"
  by (simp add: group_by_filling_def)

lemma group_keys_distinct: "distinct (map fst (group_by_filling xs))"
  by (induction xs rule: rev_induct)
     (simp_all add: group_by_filling_Nil group_by_filling_snoc defaultdict_append_keys)

lemma group_keys_set: "set (map fst (group_by_filling xs)) = SpinState_n ` set xs"
  by (induction xs rule: rev_induct)
     (auto simp add: group_by_filling_Nil group_by_filling_snoc defaultdict_append_keys)

lemma group_mset: "mset (concat (map snd (group_by_filling xs))) = mset xs"
  by (induction xs rule: rev_induct)
     (simp_all add: group_by_filling_Nil group_by_filling_snoc defaultdict_append_mset)

lemma group_map_of:
  "map_of (group_by_filling xs) k =
     (if k \<in> SpinState_n ` set xs then Some (filter (\<lambda>s. SpinState_n s = k) xs) else None)"
proof (induction xs rule: rev_induct)
  case Nil
  show ?case by (simp add: group_by_filling_Nil)
next
  case (snoc x xs)
  show ?case
  proof (cases "k = SpinState_n x")
    case True
    have "SpinState_n x \<notin> SpinState_n ` set xs \<Longrightarrow> filter (\<lambda>s. SpinState_n s = SpinState_n x) xs = []"
      by (simp add: filter_empty_conv) (metis imageI)
    then show ?thesis using True snoc
      by (auto simp add: group_by_filling_snoc defaultdict_append_map_of)
  next
    case False
    then show ?thesis using snoc
      by (auto simp add: group_by_filling_snoc defaultdict_append_map_of)
  qed
qed

lemma group_bucket:
  "(k, ys) \<in> set (group_by_filling xs) \<Longrightarrow> ys = filter (\<lambda>s. SpinState_n s = k) xs \<and> ys \<noteq> []"
proof -
  assume "(k, ys) \<in> set (group_by_filling xs)"
  then have "map_of (group_by_filling xs) k = Some ys"
    using group_keys_distinct [of xs] by simp
  then show ?thesis
    by (auto simp add: group_map_of filter_empty_conv split: if_splits)
qed

lemma ones_bound: "m < 2 ^ n \<Longrightarrow> ones m \<le> n"
proof (induction n arbitrary: m)
  case 0
  then show ?case by (subst ones_rec) simp
next
  case (Suc n)
  then have "m div 2 < 2 ^ n" by simp
  then have "ones (m div 2) \<le> n" by (rule Suc.IH)
  moreover have "m mod 2 \<le> 1" by simp
  ultimately show ?case by (subst ones_rec) (use Suc.prems in auto)
qed

lemma ones_mask: "ones (2 ^ k - 1) = k"
proof (induction k)
  case 0
  show ?case by (subst ones_rec) simp
next
  case (Suc k)
  have "1 \<le> p \<Longrightarrow> 2 * p - 1 = 2 * (p - 1) + 1" for p :: nat by arith
  from this [of "2 ^ k"] have "(2::nat) ^ Suc k - 1 = 2 * (2 ^ k - 1) + 1" by simp
  then have "ones (2 ^ Suc k - 1) = ones (2 * (2 ^ k - 1) + 1)" by simp
  also have "\<dots> = ones (2 ^ k - 1) + 1"
    by (rule ones_double) simp
  finally show ?case using Suc by simp
qed

lemma SpinState_n_image: "SpinState_n ` {0..2 ^ n - 1} = {0..int n}"
proof (intro equalityI subsetI)
  fix k assume "k \<in> SpinState_n ` {0..2 ^ n - 1}"
  then obtain s where s: "0 \<le> s" "s < 2 ^ n" and k: "k = SpinState_n s" by auto
  have "nat s < 2 ^ n" using s by (simp add: nat_less_iff)
  then have "ones (nat s) \<le> n" by (rule ones_bound)
  then show "k \<in> {0..int n}" using s k by (simp add: SpinState_n_ones)
next
  fix k assume "k \<in> {0..int n}"
  then have k: "0 \<le> k" "nat k \<le> n" by auto
  let ?s = "(2::int) ^ nat k - 1"
  have le: "(2::int) ^ nat k \<le> 2 ^ n" using k by (simp add: power_increasing)
  have "0 \<le> ?s" by simp
  moreover have "?s \<le> 2 ^ n - 1" using le by linarith
  ultimately have r: "?s \<in> {0..2 ^ n - 1}" by (simp only: atLeastAtMost_iff)
  have "nat ?s = 2 ^ nat k - 1" by (simp add: nat_diff_distrib nat_power_eq)
  then have "SpinState_n ?s = k" using k ones_mask [of "nat k"] by (simp add: SpinState_n_ones)
  then show "k \<in> SpinState_n ` {0..2 ^ n - 1}" using r by (metis imageI)
qed

subsection \<open>The basis of two sites\<close>

lemma upto_0_3: "[0..3] = [0, 1, 2, 3::int]"
  by (simp add: upto.simps)

lemma n_vals: "SpinState_n 0 = 0" "SpinState_n 1 = 1" "SpinState_n 2 = 1" "SpinState_n 3 = 2"
  by (simp_all add: SpinState_n_def bin_def str_count_def bit_char_def)

lemma group_2: "group_by_filling [0, 1, 2, 3] = [(0, [0]), (1, [1, 2]), (2, [3])]"
  by (simp add: group_by_filling_def n_vals)

lemma init_basis_2:
  "FockBasis_init_basis self 2 =
     Inr (self\<lparr>fb_num_sites := 2, fb_size := 16, fb_spinstates := [0, 1, 2, 3],
               fb_sectors := Sectors [(0, [0]), (1, [1, 2]), (2, [3])],
               fb_fillings := [0, 1, 2]\<rparr>)"
  by (simp add: FockBasis_init_basis_def create_spinstates_pos upto_0_3 group_2 Let_def)

subsection \<open>The sector partition\<close>

text \<open>
  Claim C4. \<open>init_basis(N)\<close> returns for every \<open>N \<ge> 1\<close>, and whenever it returns, the
  basis holds the enumeration \<open>0, ..., 2^N - 1\<close> and a filling map with distinct
  keys whose buckets together contain every state of the enumeration exactly once;
  every state in the bucket of \<open>k\<close> has occupation count \<open>k\<close>, and the bucket is the
  enumeration restricted to these states, in ascending order.
\<close>

theorem init_basis_partition:
  "(1 \<le> N \<longrightarrow> (\<exists>b. FockBasis_init_basis self N = Inr b)) \<and>
   (\<forall>b. FockBasis_init_basis self N = Inr b \<longrightarrow>
      fb_spinstates b = [0..2 ^ nat N - 1] \<and>
      (\<exists>d. fb_sectors b = Sectors d \<and> distinct (map fst d) \<and>
         mset (concat (map snd d)) = mset (fb_spinstates b) \<and>
         distinct (concat (map snd d)) \<and>
         (\<forall>(k, ys) \<in> set d.
            (\<forall>s \<in> set ys. SpinState_n s = k) \<and>
            ys = filter (\<lambda>s. SpinState_n s = k) (fb_spinstates b) \<and>
            sorted_wrt (<) ys)))"
proof (cases "1 \<le> N")
  case False
  then show ?thesis by (simp add: FockBasis_init_basis_def create_spinstates_nonpos)
next
  case True
  let ?xs = "[0..2 ^ nat N - 1] :: int list"
  let ?d = "group_by_filling ?xs"
  have m: "mset (concat (map snd ?d)) = mset ?xs" by (rule group_mset)
  have "distinct ?xs" by simp
  then have dc: "distinct (concat (map snd ?d))"
    using m by (metis distinct_count_atmost_1 set_mset_mset)
  have srt: "sorted_wrt (<) ?xs" by (simp add: strict_sorted_iff)
  have bk: "(\<forall>s \<in> set ys. SpinState_n s = k) \<and>
            ys = filter (\<lambda>s. SpinState_n s = k) ?xs \<and> sorted_wrt (<) ys"
    if "(k, ys) \<in> set ?d" for k ys
  proof -
    from that have ys: "ys = filter (\<lambda>s. SpinState_n s = k) ?xs" by (simp add: group_bucket)
    have "sorted_wrt (<) (filter (\<lambda>s. SpinState_n s = k) ?xs)"
      using srt by (rule sorted_wrt_filter)
    then show ?thesis using ys by auto
  qed
  show ?thesis using True m dc bk
    by (auto simp add: FockBasis_init_basis_def create_spinstates_pos Let_def group_keys_distinct
             simp del: group_by_filling_def)
qed

text \<open>The statement for two sites, where the filling map is \<open>{0: [0], 1: [1, 2], 2: [3]}\<close>.\<close>

theorem init_basis_partition_witness:
  "(1::int) \<le> 2 \<and>
   (\<exists>b. FockBasis_init_basis
          \<lparr>fb_num_sites = 0, fb_size = 0, fb_spinstates = [],
           fb_sectors = Defaultdict_class, fb_fillings = []\<rparr> 2 = Inr b \<and>
        fb_spinstates b = [0, 1, 2, 3] \<and>
        fb_sectors b = Sectors [(0, [0]), (1, [1, 2]), (2, [3])] \<and>
        (\<exists>d. fb_sectors b = Sectors d \<and> distinct (map fst d) \<and>
           mset (concat (map snd d)) = mset (fb_spinstates b) \<and>
           distinct (concat (map snd d)) \<and>
           (\<forall>(k, ys) \<in> set d.
              (\<forall>s \<in> set ys. SpinState_n s = k) \<and>
              ys = filter (\<lambda>s. SpinState_n s = k) (fb_spinstates b) \<and>
              sorted_wrt (<) ys)))"
proof -
  let ?s = "\<lparr>fb_num_sites = 0, fb_size = 0, fb_spinstates = [],
            fb_sectors = Defaultdict_class, fb_fillings = []\<rparr>"
  have h: "(1::int) \<le> 2" by simp
  obtain b where b: "FockBasis_init_basis ?s 2 = Inr b"
    using init_basis_partition [of 2 ?s] h by blast
  have p: "\<exists>d. fb_sectors b = Sectors d \<and> distinct (map fst d) \<and>
           mset (concat (map snd d)) = mset (fb_spinstates b) \<and>
           distinct (concat (map snd d)) \<and>
           (\<forall>(k, ys) \<in> set d.
              (\<forall>s \<in> set ys. SpinState_n s = k) \<and>
              ys = filter (\<lambda>s. SpinState_n s = k) (fb_spinstates b) \<and>
              sorted_wrt (<) ys)"
    using init_basis_partition [of 2 ?s] b by blast
  have "fb_spinstates b = [0, 1, 2, 3]" "fb_sectors b = Sectors [(0, [0]), (1, [1, 2]), (2, [3])]"
    using b by (auto simp add: init_basis_2)
  then show ?thesis using h b p by blast
qed

subsection \<open>Basis sectors\<close>

text \<open>
  Claim C6. Iterating \<open>states\<close> of a sector yields the pairs of an up state and a
  down state, with the up states in the outer and the down states in the inner loop;
  their number is \<open>size\<close>, the product of the lengths of the two lists. For two sites
  and the fillings \<open>(1, 1)\<close> both lists are \<open>[1, 2]\<close>, the size is 4 and the states
  are \<open>(1,1), (1,2), (2,1), (2,2)\<close> in this order.
\<close>

theorem states_cartesian_product:
  "BasisSector_states sec =
     concat (map (\<lambda>u. map (\<lambda>d. \<lparr>up = u, dn = d\<rparr>) (dn_states sec)) (up_states sec)) \<and>
   int (length (BasisSector_states sec)) = BasisSector_size sec \<and>
   BasisSector_size sec = int (length (up_states sec)) * int (length (dn_states sec)) \<and>
   (\<exists>b s. FockBasis_init 2 = Inr b \<and>
      FockBasis_get_sector b (Some 1) (Some 1) None = Inr s \<and>
      up_states s = [1, 2] \<and> dn_states s = [1, 2] \<and> BasisSector_size s = 4 \<and>
      BasisSector_states s =
        [\<lparr>up = 1, dn = 1\<rparr>, \<lparr>up = 1, dn = 2\<rparr>, \<lparr>up = 2, dn = 1\<rparr>, \<lparr>up = 2, dn = 2\<rparr>])"
proof -
  have prod: "map f (List.product xs ys) = concat (map (\<lambda>u. map (\<lambda>d. f (u, d)) ys) xs)"
    for f :: "int \<times> int \<Rightarrow> State" and xs ys
    by (induction xs) (simp_all add: comp_def)
  have a: "BasisSector_states sec =
     concat (map (\<lambda>u. map (\<lambda>d. \<lparr>up = u, dn = d\<rparr>) (dn_states sec)) (up_states sec))"
    by (simp add: BasisSector_states_def prod)
  have b: "int (length (BasisSector_states sec)) = BasisSector_size sec"
    by (simp add: BasisSector_states_def BasisSector_size_def)
  have c: "\<exists>b s. FockBasis_init 2 = Inr b \<and>
      FockBasis_get_sector b (Some 1) (Some 1) None = Inr s \<and>
      up_states s = [1, 2] \<and> dn_states s = [1, 2] \<and> BasisSector_size s = 4 \<and>
      BasisSector_states s =
        [\<lparr>up = 1, dn = 1\<rparr>, \<lparr>up = 1, dn = 2\<rparr>, \<lparr>up = 2, dn = 1\<rparr>, \<lparr>up = 2, dn = 2\<rparr>]"
    by (simp add: FockBasis_init_def init_basis_2 FockBasis_get_sector_def
          FockBasis_get_spinstates_def dict_get_def BasisSector_size_def BasisSector_states_def)
  show ?thesis using a b c by (simp add: BasisSector_size_def)
qed

subsection \<open>Lookups on an initialised basis\<close>

lemma init_basis_Inr:
  "FockBasis_init_basis self N = Inr b \<Longrightarrow>
     1 \<le> N \<and> fb_num_sites b = N \<and> fb_spinstates b = [0..2 ^ nat N - 1] \<and>
     fb_sectors b = Sectors (group_by_filling [0..2 ^ nat N - 1]) \<and>
     fb_fillings b = map fst (group_by_filling [0..2 ^ nat N - 1])"
proof (cases "1 \<le> N")
  case True
  assume "FockBasis_init_basis self N = Inr b"
  then show ?thesis using True
    by (auto simp add: FockBasis_init_basis_def create_spinstates_pos Let_def)
next
  case False
  assume "FockBasis_init_basis self N = Inr b"
  then show ?thesis using False
    by (simp add: FockBasis_init_basis_def create_spinstates_nonpos)
qed

lemma fillings_range:
  "1 \<le> N \<Longrightarrow> set (map fst (group_by_filling [0..2 ^ nat N - 1])) = {0..N}"
  using SpinState_n_image [of "nat N"] by (simp add: group_keys_set del: set_map)

lemma dict_get_group:
  "dict_get (group_by_filling xs) k dflt =
     (if k \<in> SpinState_n ` set xs then filter (\<lambda>s. SpinState_n s = k) xs else dflt)"
  by (simp add: dict_get_def group_map_of)

lemma in_fillings_iff:
  "FockBasis_init_basis self N = Inr b \<Longrightarrow>
     in_fillings n (fb_fillings b) \<longleftrightarrow> (\<exists>k. n = Some k \<and> 0 \<le> k \<and> k \<le> N)"
proof -
  assume a: "FockBasis_init_basis self N = Inr b"
  note r = init_basis_Inr [OF a]
  from r have "set (fb_fillings b) = {0..N}" using fillings_range [of N] by simp
  then show ?thesis by (cases n) (simp_all add: in_fillings_def)
qed

lemma get_spinstates_known:
  "FockBasis_init_basis self N = Inr b \<Longrightarrow> 0 \<le> k \<Longrightarrow> k \<le> N \<Longrightarrow>
     FockBasis_get_spinstates b (Some k) =
       Inr (filter (\<lambda>s. SpinState_n s = k) [0..2 ^ nat N - 1])"
proof -
  assume a: "FockBasis_init_basis self N = Inr b" and k: "0 \<le> k" "k \<le> N"
  note r = init_basis_Inr [OF a]
  have "k \<in> SpinState_n ` set [0..2 ^ nat N - 1]"
    using r k fillings_range [of N] by (simp add: group_keys_set del: set_map)
  then show ?thesis using r by (simp add: FockBasis_get_spinstates_def dict_get_group)
qed

lemma get_spinstates_unknown:
  "FockBasis_init_basis self N = Inr b \<Longrightarrow> \<not> in_fillings n (fb_fillings b) \<Longrightarrow>
     FockBasis_get_spinstates b n = Inr (fb_spinstates b)"
proof -
  assume a: "FockBasis_init_basis self N = Inr b" and n: "\<not> in_fillings n (fb_fillings b)"
  note r = init_basis_Inr [OF a]
  show ?thesis
  proof (cases n)
    case None
    then show ?thesis using r by (simp add: FockBasis_get_spinstates_def)
  next
    case (Some k)
    then have "k \<notin> set (map fst (group_by_filling [0..2 ^ nat N - 1]))"
      using n r by (simp add: in_fillings_def)
    then have "k \<notin> SpinState_n ` set [0..2 ^ nat N - 1]"
      unfolding group_keys_set .
    then show ?thesis using r Some
      by (simp add: FockBasis_get_spinstates_def dict_get_group)
  qed
qed

lemma get_sector_None:
  "FockBasis_get_sector b nu nd None =
     (case FockBasis_get_spinstates b nu of
        Inl e \<Rightarrow> Inl e
      | Inr ups \<Rightarrow>
          (case FockBasis_get_spinstates b nd of
             Inl e \<Rightarrow> Inl e
           | Inr dns \<Rightarrow>
               Inr \<lparr>num_sites = fb_num_sites b, n_up = nu, n_dn = nd,
                    up_states = ups, dn_states = dns\<rparr>))"
  by (simp add: FockBasis_get_sector_def split: option.splits)

lemma get_sector_known:
  assumes a: "FockBasis_init_basis self N = Inr b"
    and "0 \<le> u" "u \<le> N" "0 \<le> d" "d \<le> N"
  shows "FockBasis_get_sector b (Some u) (Some d) None =
       Inr \<lparr>num_sites = N, n_up = Some u, n_dn = Some d,
            up_states = filter (\<lambda>s. SpinState_n s = u) [0..2 ^ nat N - 1],
            dn_states = filter (\<lambda>s. SpinState_n s = d) [0..2 ^ nat N - 1]\<rparr>"
  using assms init_basis_Inr [OF a]
  by (simp add: get_sector_None get_spinstates_known [OF a])

lemma list_getitem_nonneg:
  "0 \<le> i \<Longrightarrow> i < int (length xs) \<Longrightarrow> list_getitem xs i = Inr (xs ! nat i)"
  by (simp add: list_getitem_def)

subsection \<open>Sector navigation and lookups\<close>

text \<open>
  Claim C7. On a basis initialised for \<open>N\<close> sites and fillings \<open>n_up\<close>, \<open>n_dn\<close> in
  \<open>[0, N]\<close>, \<open>get_next_sector\<close> adds \<open>delta\<close> to \<open>n_up\<close> when \<open>sigma\<close> is \<open>UP\<close> and to
  \<open>n_dn\<close> otherwise. It returns the sector of the shifted fillings, whose state lists
  are the states of the enumeration with these occupation counts, when the shifted
  filling lies in \<open>[0, N]\<close>, and \<open>None\<close> when it does not.
\<close>

theorem get_next_sector_spec:
  "FockBasis_init_basis self N = Inr b \<Longrightarrow> 0 \<le> nu \<Longrightarrow> nu \<le> N \<Longrightarrow> 0 \<le> nd \<Longrightarrow> nd \<le> N \<Longrightarrow>
     FockBasis_get_next_sector b (Some nu) (Some nd) None sigma delta =
       Inr (let u = (if sigma = UP then nu + delta else nu);
                d = (if sigma = UP then nd else nd + delta)
            in if 0 \<le> u \<and> u \<le> N \<and> 0 \<le> d \<and> d \<le> N
               then Some \<lparr>num_sites = N, n_up = Some u, n_dn = Some d,
                          up_states = filter (\<lambda>s. SpinState_n s = u) [0..2 ^ nat N - 1],
                          dn_states = filter (\<lambda>s. SpinState_n s = d) [0..2 ^ nat N - 1]\<rparr>
               else None)"
proof -
  assume a: "FockBasis_init_basis self N = Inr b"
    and r: "0 \<le> nu" "nu \<le> N" "0 \<le> nd" "nd \<le> N"
  have inf: "in_fillings (Some k) (fb_fillings b) \<longleftrightarrow> 0 \<le> k \<and> k \<le> N" for k
    using in_fillings_iff [OF a, of "Some k"] by simp
  show ?thesis
  proof (cases "sigma = UP")
    case True
    show ?thesis
    proof (cases "0 \<le> nu + delta \<and> nu + delta \<le> N")
      case True
      then have "FockBasis_get_sector b (Some (nu + delta)) (Some nd) None =
         Inr \<lparr>num_sites = N, n_up = Some (nu + delta), n_dn = Some nd,
            up_states = filter (\<lambda>s. SpinState_n s = nu + delta) [0..2 ^ nat N - 1],
            dn_states = filter (\<lambda>s. SpinState_n s = nd) [0..2 ^ nat N - 1]\<rparr>"
        using r by (intro get_sector_known [OF a]) simp_all
      then show ?thesis using True \<open>sigma = UP\<close> r
        by (simp add: FockBasis_get_next_sector_def iadd_def inf Let_def)
    next
      case False
      then show ?thesis using \<open>sigma = UP\<close> r
        by (auto simp add: FockBasis_get_next_sector_def iadd_def inf Let_def)
    qed
  next
    case False
    note ns = False
    show ?thesis
    proof (cases "0 \<le> nd + delta \<and> nd + delta \<le> N")
      case True
      then have "FockBasis_get_sector b (Some nu) (Some (nd + delta)) None =
         Inr \<lparr>num_sites = N, n_up = Some nu, n_dn = Some (nd + delta),
            up_states = filter (\<lambda>s. SpinState_n s = nu) [0..2 ^ nat N - 1],
            dn_states = filter (\<lambda>s. SpinState_n s = nd + delta) [0..2 ^ nat N - 1]\<rparr>"
        using r by (intro get_sector_known [OF a]) simp_all
      then show ?thesis using True ns r
        by (simp add: FockBasis_get_next_sector_def iadd_def inf Let_def)
    next
      case False
      then show ?thesis using ns r
        by (auto simp add: FockBasis_get_next_sector_def iadd_def inf Let_def)
    qed
  qed
qed

text \<open>
  For two sites: from \<open>(1, 1)\<close> the next sector in the up filling is \<open>(2, 1)\<close>, and
  from \<open>(2, 1)\<close> there is none.
\<close>

theorem get_next_sector_spec_witness:
  "(\<exists>b. FockBasis_init 2 = Inr b \<and>
      FockBasis_get_next_sector b (Some 1) (Some 1) None UP 1 =
        Inr (Some \<lparr>num_sites = 2, n_up = Some 2, n_dn = Some 1,
                   up_states = [3], dn_states = [1, 2]\<rparr>) \<and>
      FockBasis_get_next_sector b (Some 2) (Some 1) None UP 1 = Inr None)"
proof -
  let ?s = "\<lparr>fb_num_sites = 2, fb_size = 0, fb_spinstates = [],
            fb_sectors = Defaultdict_class, fb_fillings = []\<rparr>"
  obtain b where b: "FockBasis_init_basis ?s 2 = Inr b" by (simp add: init_basis_2)
  have i: "FockBasis_init 2 = Inr b" using b by (simp add: FockBasis_init_def)
  have "FockBasis_get_next_sector b (Some 1) (Some 1) None UP 1 =
        Inr (Some \<lparr>num_sites = 2, n_up = Some 2, n_dn = Some 1,
                   up_states = [3], dn_states = [1, 2]\<rparr>)"
    using get_next_sector_spec [OF b, of 1 1 UP 1] by (simp add: upto_0_3 n_vals)
  moreover have "FockBasis_get_next_sector b (Some 2) (Some 1) None UP 1 = Inr None"
    using get_next_sector_spec [OF b, of 2 1 UP 1] by simp
  ultimately show ?thesis using i by blast
qed

text \<open>
  Claim C8. On an initialised basis the fillings that are keys of the filling map are
  the integers of \<open>[0, N]\<close>. For every other filling, \<open>None\<close> included,
  \<open>get_spinstates\<close> returns the full list of spin states without raising, and
  \<open>get_sector\<close> with such fillings builds the sector whose two state lists are that
  full list.
\<close>

theorem get_spinstates_fallback:
  "FockBasis_init_basis self N = Inr b \<Longrightarrow>
     (in_fillings n (fb_fillings b) \<longleftrightarrow> (\<exists>k. n = Some k \<and> 0 \<le> k \<and> k \<le> N)) \<and>
     fb_spinstates b = [0..2 ^ nat N - 1] \<and>
     FockBasis_get_spinstates b None = Inr (fb_spinstates b) \<and>
     (\<not> in_fillings n (fb_fillings b) \<longrightarrow>
        FockBasis_get_spinstates b n = Inr (fb_spinstates b)) \<and>
     (\<not> in_fillings n (fb_fillings b) \<and> \<not> in_fillings m (fb_fillings b) \<longrightarrow>
        FockBasis_get_sector b n m None =
          Inr \<lparr>num_sites = N, n_up = n, n_dn = m,
               up_states = fb_spinstates b, dn_states = fb_spinstates b\<rparr>)"
proof -
  assume a: "FockBasis_init_basis self N = Inr b"
  note r = init_basis_Inr [OF a]
  have 1: "in_fillings n (fb_fillings b) \<longleftrightarrow> (\<exists>k. n = Some k \<and> 0 \<le> k \<and> k \<le> N)"
    using a by (rule in_fillings_iff)
  have 2: "FockBasis_get_spinstates b None = Inr (fb_spinstates b)"
    using a by (rule get_spinstates_unknown) (simp add: in_fillings_def)
  have 3: "FockBasis_get_sector b n m None =
          Inr \<lparr>num_sites = N, n_up = n, n_dn = m,
               up_states = fb_spinstates b, dn_states = fb_spinstates b\<rparr>"
    if "\<not> in_fillings n (fb_fillings b)" "\<not> in_fillings m (fb_fillings b)"
    using that r by (simp add: get_sector_None get_spinstates_unknown [OF a])
  show ?thesis using 1 2 3 r get_spinstates_unknown [OF a] by blast
qed

text \<open>For two sites, with the fillings \<open>None\<close> and 5.\<close>

theorem get_spinstates_fallback_witness:
  "\<exists>b. FockBasis_init 2 = Inr b \<and>
      \<not> in_fillings None (fb_fillings b) \<and> \<not> in_fillings (Some 5) (fb_fillings b) \<and>
      FockBasis_get_spinstates b None = Inr [0, 1, 2, 3] \<and>
      FockBasis_get_spinstates b (Some 5) = Inr [0, 1, 2, 3] \<and>
      FockBasis_get_sector b None (Some 5) None =
        Inr \<lparr>num_sites = 2, n_up = None, n_dn = Some 5,
             up_states = [0, 1, 2, 3], dn_states = [0, 1, 2, 3]\<rparr>"
proof -
  let ?s = "\<lparr>fb_num_sites = 2, fb_size = 0, fb_spinstates = [],
            fb_sectors = Defaultdict_class, fb_fillings = []\<rparr>"
  obtain b where b: "FockBasis_init_basis ?s 2 = Inr b" by (simp add: init_basis_2)
  have i: "FockBasis_init 2 = Inr b" using b by (simp add: FockBasis_init_def)
  have x: "\<not> in_fillings None (fb_fillings b)" "\<not> in_fillings (Some 5) (fb_fillings b)"
    using get_spinstates_fallback [OF b, of None] get_spinstates_fallback [OF b, of "Some 5"]
    by simp_all
  have y: "fb_spinstates b = [0, 1, 2, 3]"
    using get_spinstates_fallback [OF b, of None] by (simp add: upto_0_3)
  have "FockBasis_get_spinstates b None = Inr [0, 1, 2, 3]"
       "FockBasis_get_spinstates b (Some 5) = Inr [0, 1, 2, 3]"
       "FockBasis_get_sector b None (Some 5) None =
        Inr \<lparr>num_sites = 2, n_up = None, n_dn = Some 5,
             up_states = [0, 1, 2, 3], dn_states = [0, 1, 2, 3]\<rparr>"
    using get_spinstates_fallback [OF b, of None "Some 5"]
          get_spinstates_fallback [OF b, of "Some 5" "Some 5"] x y
    by simp_all
  then show ?thesis using i x by blast
qed

text \<open>
  Claim C10. \<open>FockBasis()\<close> with the default site count 0 does not run \<open>init_basis\<close>:
  it returns the object with empty lists whose \<open>_sectors\<close> is the class
  \<open>defaultdict\<close>. On it \<open>get_spinstates\<close> raises \<open>TypeError\<close> for every argument, and
  so do \<open>get_spin_sector\<close> and every call of \<open>get_sector\<close> that looks the spin states
  up. \<open>init_basis\<close> raises on a site count that is not positive, and with a positive
  one it returns a basis on which \<open>get_spinstates\<close> returns a list.
\<close>

theorem default_basis_unusable:
  "\<exists>b0. FockBasis_init 0 = Inr b0 \<and>
      b0 = \<lparr>fb_num_sites = 0, fb_size = 0, fb_spinstates = [],
            fb_sectors = Defaultdict_class, fb_fillings = []\<rparr> \<and>
      (\<forall>n. FockBasis_get_spinstates b0 n = Inl TypeError) \<and>
      (\<forall>n sigma. FockBasis_get_spin_sector b0 n sigma = Inl TypeError) \<and>
      (\<forall>nu nd. FockBasis_get_sector b0 nu nd None = Inl TypeError) \<and>
      (\<forall>nu nd sec. nu \<noteq> None \<or> nd \<noteq> None \<longrightarrow>
         FockBasis_get_sector b0 nu nd sec = Inl TypeError) \<and>
      (\<forall>N. N \<le> 0 \<longrightarrow> FockBasis_init_basis b0 N = Inl ValueError) \<and>
      (\<forall>N. 1 \<le> N \<longrightarrow>
         (\<exists>b. FockBasis_init_basis b0 N = Inr b \<and>
            (\<forall>n. \<exists>xs. FockBasis_get_spinstates b n = Inr xs)))"
proof -
  let ?b0 = "\<lparr>fb_num_sites = 0, fb_size = 0, fb_spinstates = [],
             fb_sectors = Defaultdict_class, fb_fillings = []\<rparr>"
  have i: "FockBasis_init 0 = Inr ?b0" by (simp add: FockBasis_init_def)
  have g: "FockBasis_get_spinstates ?b0 n = Inl TypeError" for n
    by (simp add: FockBasis_get_spinstates_def)
  have s: "FockBasis_get_spin_sector ?b0 n sigma = Inl TypeError" for n sigma
    by (simp add: FockBasis_get_spin_sector_def g)
  have t: "FockBasis_get_sector ?b0 nu nd None = Inl TypeError" for nu nd
    by (simp add: get_sector_None g)
  have u: "FockBasis_get_sector ?b0 nu nd sec = Inl TypeError"
    if "nu \<noteq> None \<or> nd \<noteq> None" for nu nd sec
    using that by (auto simp add: FockBasis_get_sector_def g split: option.splits)
  have v: "FockBasis_init_basis ?b0 N = Inl ValueError" if "N \<le> 0" for N
    using that by (simp add: FockBasis_init_basis_def create_spinstates_nonpos)
  have w: "\<exists>b. FockBasis_init_basis ?b0 N = Inr b \<and>
            (\<forall>n. \<exists>xs. FockBasis_get_spinstates b n = Inr xs)" if "1 \<le> N" for N
    using that
    by (simp add: FockBasis_init_basis_def create_spinstates_pos Let_def
          FockBasis_get_spinstates_def split: option.splits)
  show ?thesis using i g s t u v w by blast
qed

theorem default_basis_unusable_witness:
  "\<exists>b0. FockBasis_init 0 = Inr b0 \<and>
      FockBasis_get_sector b0 (Some 1) None
        (Some \<lparr>num_sites = 0, n_up = None, n_dn = None, up_states = [], dn_states = []\<rparr>) = Inl TypeError \<and>
      FockBasis_init_basis b0 0 = Inl ValueError \<and>
      (\<exists>b. FockBasis_init_basis b0 2 = Inr b \<and>
         (\<exists>xs. FockBasis_get_spinstates b (Some 1) = Inr xs))"
proof -
  let ?sec = "\<lparr>num_sites = 0, n_up = None, n_dn = None, up_states = [], dn_states = []\<rparr>"
  from default_basis_unusable obtain b0 where
    i: "FockBasis_init 0 = Inr b0" and
    u: "\<forall>nu nd sec. nu \<noteq> None \<or> nd \<noteq> None \<longrightarrow>
          FockBasis_get_sector b0 nu nd sec = Inl TypeError" and
    v: "\<forall>N. N \<le> 0 \<longrightarrow> FockBasis_init_basis b0 N = Inl ValueError" and
    w: "\<forall>N. 1 \<le> N \<longrightarrow>
         (\<exists>b. FockBasis_init_basis b0 N = Inr b \<and>
            (\<forall>n. \<exists>xs. FockBasis_get_spinstates b n = Inr xs))"
    by (elim exE conjE)
  have "FockBasis_get_sector b0 (Some 1) None (Some ?sec) = Inl TypeError"
    using u [rule_format, of "Some 1" None "Some ?sec"] by simp
  moreover have "FockBasis_init_basis b0 0 = Inl ValueError"
    using v [rule_format, of 0] by simp
  moreover have "\<exists>b. FockBasis_init_basis b0 2 = Inr b \<and>
         (\<exists>xs. FockBasis_get_spinstates b (Some 1) = Inr xs)"
  proof -
    from w [rule_format, of 2] obtain b where
      b: "FockBasis_init_basis b0 2 = Inr b" and
      g: "\<forall>n. \<exists>xs. FockBasis_get_spinstates b n = Inr xs"
      by auto
    from g [rule_format, of "Some 1"] b show ?thesis by blast
  qed
  ultimately show ?thesis using i by blast
qed

subsection \<open>Flat state indices\<close>

text \<open>
  Claim C1. \<open>get_state_index(idx_up, idx_dn)\<close> is \<open>idx_up * size + idx_dn\<close> with
  \<open>size = |up_states| * |dn_states|\<close>, and for list positions \<open>idx_up < |up_states|\<close>
  and \<open>idx_dn < |dn_states|\<close> the call of \<open>get_spin_states\<close> on that index returns the
  pair \<open>(up_states[idx_up], dn_states[idx_dn])\<close>.
\<close>

theorem state_index_roundtrip:
  "BasisSector_get_state_index sec i j =
     i * (int (length (up_states sec)) * int (length (dn_states sec))) + j \<and>
   (0 \<le> i \<and> i < int (length (up_states sec)) \<and> 0 \<le> j \<and> j < int (length (dn_states sec)) \<longrightarrow>
      BasisSector_get_spin_states sec (BasisSector_get_state_index sec i j) =
        Inr (up_states sec ! nat i, dn_states sec ! nat j))"
proof -
  let ?U = "int (length (up_states sec))" and ?D = "int (length (dn_states sec))"
  have a: "BasisSector_get_state_index sec i j = i * (?U * ?D) + j"
    by (simp add: BasisSector_get_state_index_def BasisSector_size_def)
  have b: "BasisSector_get_spin_states sec (BasisSector_get_state_index sec i j) =
        Inr (up_states sec ! nat i, dn_states sec ! nat j)"
    if r: "0 \<le> i" "i < ?U" "0 \<le> j" "j < ?D"
  proof -
    have U: "1 \<le> ?U" using r by linarith
    have "?D * 1 \<le> ?D * ?U" using U r by (intro mult_left_mono) simp_all
    then have lt: "j < ?U * ?D" using r by (simp add: mult.commute)
    then have pos: "?U * ?D \<noteq> 0" using r by linarith
    have dv: "(i * (?U * ?D) + j) div (?U * ?D) = i"
      using lt r pos by (simp add: div_pos_pos_trivial)
    have md: "(i * (?U * ?D) + j) mod (?U * ?D) = j"
      using lt r by (simp add: mod_pos_pos_trivial)
    show ?thesis
      unfolding a BasisSector_get_spin_states_def BasisSector_size_def Let_def dv md
      using pos r by (simp add: list_getitem_nonneg)
  qed
  show ?thesis using a b by blast
qed

text \<open>The sector \<open>(1, 1)\<close> of two sites at the positions \<open>(1, 0)\<close>.\<close>

theorem state_index_roundtrip_witness:
  "BasisSector_get_state_index
     \<lparr>num_sites = 2, n_up = Some 1, n_dn = Some 1, up_states = [1, 2], dn_states = [1, 2]\<rparr> 1 0 = 4 \<and>
   BasisSector_get_spin_states
     \<lparr>num_sites = 2, n_up = Some 1, n_dn = Some 1, up_states = [1, 2], dn_states = [1, 2]\<rparr> 4 =
     Inr (2, 1)"
proof -
  let ?sec = "\<lparr>num_sites = 2, n_up = Some 1, n_dn = Some 1,
               up_states = [1, 2], dn_states = [1, 2]\<rparr>"
  have h: "(0::int) \<le> 1 \<and> 1 < int (length (up_states ?sec)) \<and>
           (0::int) \<le> 0 \<and> 0 < int (length (dn_states ?sec))"
    by simp
  have a: "BasisSector_get_state_index ?sec 1 0 = 4"
    using state_index_roundtrip [of ?sec 1 0] by simp
  have "BasisSector_get_spin_states ?sec (BasisSector_get_state_index ?sec 1 0) =
          Inr (up_states ?sec ! nat 1, dn_states ?sec ! nat 0)"
    using state_index_roundtrip [of ?sec 1 0] h by blast
  then have "BasisSector_get_spin_states ?sec 4 = Inr (2, 1)"
    unfolding a by simp
  then show ?thesis using a by blast
qed

end
